theory Spec2Isabelle
  imports Main
begin

section \<open>The PDF processing service (pdf\_processor\_service.py)\<close>

text \<open>
  A shallow embedding of \<^verbatim>\<open>get_chapter_map\<close> and \<^verbatim>\<open>process_pdf\<close>.
  Python integers are \<open>int\<close>; Python strings are \<open>string\<close>, a character being its
  code point (below 256); a raised exception is a value \<open>Inl e\<close> of a sum type.
  The PDF library and the text splitter are external: the opened document is a record of
  what the code asks of it, and the opener and the splitter are parameters.
\<close>

subsection \<open>Python strings\<close>

text \<open>\<^verbatim>\<open>str.isspace\<close> of one character: the white space code points below 256.\<close>

definition isspace :: "char \<Rightarrow> bool" where
  "isspace c = ((of_char c :: nat) \<in> set [9, 10, 11, 12, 13, 28, 29, 30, 31, 32, 133, 160])"

text \<open>\<^verbatim>\<open>s.strip()\<close>: leading and trailing white space removed.\<close>

definition strip :: "string \<Rightarrow> string" where
  "strip s = rev (dropWhile isspace (rev (dropWhile isspace s)))"

text \<open>\<^verbatim>\<open>s.startswith(p)\<close>.\<close>

definition startswith :: "string \<Rightarrow> string \<Rightarrow> bool" where
  "startswith s p = (take (length p) s = p)"

text \<open>\<^verbatim>\<open>str(n)\<close> of an integer: decimal digits, a minus sign when negative.\<close>

definition digit_char :: "nat \<Rightarrow> char" where
  "digit_char d = char_of (48 + d)"

fun str_nat :: "nat \<Rightarrow> string" where
  "str_nat n = (if n < 10 then [digit_char n] else str_nat (n div 10) @ [digit_char (n mod 10)])"

declare str_nat.simps [simp del]

definition str_int :: "int \<Rightarrow> string" where
  "str_int i = (if i < 0 then CHR ''-'' # str_nat (nat (- i)) else str_nat (nat i))"

text \<open>\<^verbatim>\<open>sep.join(xs)\<close>.\<close>

fun join :: "string \<Rightarrow> string list \<Rightarrow> string" where
  "join sep [] = []"
| "join sep [x] = x"
| "join sep (x # y # ys) = x @ sep @ join sep (y # ys)"

text \<open>
  \<^verbatim>\<open>s.replace(old, new)\<close>: every non-overlapping occurrence of \<open>old\<close>, from the left,
  becomes \<open>new\<close>; an empty \<open>old\<close> matches before every character and at the end.
\<close>

function replace :: "string \<Rightarrow> string \<Rightarrow> string \<Rightarrow> string" where
  "replace old new [] = (if old = [] then new else [])"
| "replace old new (c # cs) =
     (if old = [] then new @ c # replace old new cs
      else if startswith (c # cs) old then new @ replace old new (drop (length old) (c # cs))
      else c # replace old new cs)"
  by pat_completeness auto
termination
  by (relation "measure (\<lambda>(old, new, s). length s)") auto

subsection \<open>Exceptions\<close>

text \<open>
  \<open>IndexError\<close> is what a list raises on an index out of range; \<open>Raised m\<close> is an
  exception of an external collaborator with message \<open>m\<close>.
\<close>

datatype error = IndexError | Raised string

fun str_error :: "error \<Rightarrow> string" where
  "str_error IndexError = ''list index out of range''"
| "str_error (Raised m) = m"

text \<open>\<^verbatim>\<open>xs[i]\<close> for an index that is not negative.\<close>

definition getitem :: "'a list \<Rightarrow> nat \<Rightarrow> error + 'a" where
  "getitem xs i = (if i < length xs then Inr (xs ! i) else Inl IndexError)"

subsection \<open>The opened document\<close>

text \<open>An outline entry \<^verbatim>\<open>(level, title, page)\<close>.\<close>

type_synonym toc_entry = "int \<times> string \<times> int"

text \<open>
  What the code uses of a document: \<^verbatim>\<open>doc.get_toc()\<close>, \<^verbatim>\<open>doc.page_count\<close> and
  \<^verbatim>\<open>doc[page_num].get_text()\<close>, which may raise.
\<close>

record document =
  get_toc :: "toc_entry list"
  page_count :: int
  get_text :: "int \<Rightarrow> error + string"

subsection \<open>The chapter map\<close>

record chapter_record =
  chapter_number :: string
  title :: string
  start_page :: int
  end_page :: int

text \<open>The single chapter returned when there is no usable bookmark.\<close>

definition full_document :: "document \<Rightarrow> chapter_record list" where
  "full_document doc =
     [\<lparr>chapter_number = ''1'', title = ''Full Document'', start_page = 1,
       end_page = page_count doc\<rparr>]"

text \<open>
  The first loop, over \<^verbatim>\<open>enumerate(toc)\<close>, with \<^verbatim>\<open>valid_chapter_indices\<close> as
  accumulator.
\<close>

fun valid_indices_loop :: "(nat \<times> toc_entry) list \<Rightarrow> nat list \<Rightarrow> nat list" where
  "valid_indices_loop [] valid_chapter_indices = valid_chapter_indices"
| "valid_indices_loop ((i, (level, title', page)) # rest) valid_chapter_indices =
     (let normalized_title = strip title' in
      if level = 1 \<and> (startswith normalized_title ''Chapter''
                       \<or> startswith normalized_title ''Appendix'')
      then valid_indices_loop rest (valid_chapter_indices @ [i])
      else valid_indices_loop rest valid_chapter_indices)"

text \<open>
  The end page of the chapter at position \<open>i\<close>: the page of the next valid chapter minus
  one, the page count for the last one.
\<close>

definition chapter_end_page :: "toc_entry list \<Rightarrow> int \<Rightarrow> nat list \<Rightarrow> nat \<Rightarrow> error + int" where
  "chapter_end_page toc pc valid_chapter_indices i =
     (if int i < int (length valid_chapter_indices) - 1 then
        (case getitem valid_chapter_indices (i + 1) of
           Inl e \<Rightarrow> Inl e
         | Inr next_toc_index \<Rightarrow>
             (case getitem toc next_toc_index of
                Inl e \<Rightarrow> Inl e
              | Inr (level, title', page) \<Rightarrow> Inr (page - 1)))
      else Inr pc)"

text \<open>
  The second loop, over \<^verbatim>\<open>enumerate(valid_chapter_indices)\<close>, with
  \<^verbatim>\<open>chapter_count\<close> and \<^verbatim>\<open>chapter_map\<close> as state. The local variables
  \<^verbatim>\<open>title\<close> and \<^verbatim>\<open>end_page\<close> are primed: the names are those of the record's fields.
\<close>

fun chapter_loop ::
  "toc_entry list \<Rightarrow> int \<Rightarrow> nat list \<Rightarrow> (nat \<times> nat) list \<Rightarrow> int \<Rightarrow> chapter_record list
     \<Rightarrow> error + chapter_record list" where
  "chapter_loop toc pc valid_chapter_indices [] chapter_count chapter_map = Inr chapter_map"
| "chapter_loop toc pc valid_chapter_indices ((i, toc_index) # rest) chapter_count chapter_map =
     (case getitem toc toc_index of
        Inl e \<Rightarrow> Inl e
      | Inr (level, title', page) \<Rightarrow>
          (case chapter_end_page toc pc valid_chapter_indices i of
             Inl e \<Rightarrow> Inl e
           | Inr end_page' \<Rightarrow>
               chapter_loop toc pc valid_chapter_indices rest (chapter_count + 1)
                 (chapter_map @
                    [\<lparr>chapter_number = str_int chapter_count, title = strip title',
                      start_page = page, end_page = end_page'\<rparr>])))"

definition get_chapter_map :: "document \<Rightarrow> error + chapter_record list" where
  "get_chapter_map doc =
     (let toc = get_toc doc in
      if toc = [] then Inr (full_document doc)
      else
        let valid_chapter_indices = valid_indices_loop (enumerate 0 toc) [] in
        if valid_chapter_indices = [] then Inr (full_document doc)
        else chapter_loop toc (page_count doc) valid_chapter_indices
               (enumerate 0 valid_chapter_indices) 1 [])"

subsection \<open>The three layers\<close>

record full_toc_doc =
  toc_content :: string
  toc_doc_type :: string

record entry_doc =
  entry_content :: string
  entry_doc_type :: string
  entry_chapter :: string

record chunk_doc =
  chunk_content :: string
  chunk_doc_type :: string
  chunk_chapter :: string
  chunk_chapter_title :: string

record payload =
  layer1_full_toc_doc :: full_toc_doc
  layer1_entry_docs :: "entry_doc list"
  layer3_chunks :: "chunk_doc list"

text \<open>One line of the full table of contents, and the lines joined.\<close>

definition toc_line :: "chapter_record \<Rightarrow> string" where
  "toc_line c =
     ''Chapter '' @ chapter_number c @ '': '' @ title c
       @ '' (Page '' @ str_int (start_page c) @ '')''"

definition toc_text :: "chapter_record list \<Rightarrow> string" where
  "toc_text chapter_map = join [CHR 0x0A] (map toc_line chapter_map)"

text \<open>One table-of-contents entry per chapter.\<close>

definition toc_entry_doc :: "chapter_record \<Rightarrow> entry_doc" where
  "toc_entry_doc c =
     \<lparr>entry_content =
        ''Chapter '' @ chapter_number c @ '': '' @ title c
          @ '' (Starts on Page '' @ str_int (start_page c) @ '')'',
      entry_doc_type = ''toc_entry'',
      entry_chapter = chapter_number c\<rparr>"

text \<open>\<^verbatim>\<open>range(a, b)\<close>.\<close>

definition py_range :: "int \<Rightarrow> int \<Rightarrow> int list" where
  "py_range a b = [a..b - 1]"

text \<open>
  The loop over the pages of one chapter. The list \<open>reads\<close> records, in order, every page
  index the code asks the document for.
\<close>

fun read_pages ::
  "document \<Rightarrow> int list \<Rightarrow> string \<Rightarrow> int list \<Rightarrow> (error + string) \<times> int list" where
  "read_pages doc [] chapter_text reads = (Inr chapter_text, reads)"
| "read_pages doc (page_num # rest) chapter_text reads =
     (case get_text doc page_num of
        Inl e \<Rightarrow> (Inl e, reads @ [page_num])
      | Inr t \<Rightarrow> read_pages doc rest (chapter_text @ t) (reads @ [page_num]))"

definition extract_chapter_text ::
  "document \<Rightarrow> chapter_record \<Rightarrow> int list \<Rightarrow> (error + string) \<times> int list" where
  "extract_chapter_text doc c reads =
     (let start_page_index = max 0 (start_page c - 1);
          end_page_index = min (page_count doc) (end_page c)
      in read_pages doc (py_range start_page_index end_page_index) [] reads)"

text \<open>The chunk appended for one piece of a chapter's text.\<close>

definition make_chunk :: "chapter_record \<Rightarrow> string \<Rightarrow> chunk_doc" where
  "make_chunk c chunk_content' =
     \<lparr>chunk_content = replace [CHR 0x00] [] chunk_content',
      chunk_doc_type = ''chunk'',
      chunk_chapter = chapter_number c,
      chunk_chapter_title = title c\<rparr>"

text \<open>
  The loop over the chapters, with \<^verbatim>\<open>layer3_chunks\<close> as state. The splitter
  \<^verbatim>\<open>text_splitter.split_text\<close> is a parameter.
\<close>

fun layer3_loop ::
  "document \<Rightarrow> (string \<Rightarrow> error + string list) \<Rightarrow> chapter_record list \<Rightarrow> chunk_doc list
     \<Rightarrow> int list \<Rightarrow> (error + chunk_doc list) \<times> int list" where
  "layer3_loop doc split_text [] chunks_acc reads = (Inr chunks_acc, reads)"
| "layer3_loop doc split_text (c # rest) chunks_acc reads =
     (case extract_chapter_text doc c reads of
        (Inl e, reads') \<Rightarrow> (Inl e, reads')
      | (Inr chapter_text, reads') \<Rightarrow>
          (case split_text chapter_text of
             Inl e \<Rightarrow> (Inl e, reads')
           | Inr chunks \<Rightarrow>
               layer3_loop doc split_text rest (chunks_acc @ map (make_chunk c) chunks) reads'))"

subsection \<open>The request handler\<close>

record upload =
  filename :: string
  file_bytes :: string

text \<open>A response: the JSON body and the status code.\<close>

datatype response = Json_layers payload nat | Json_error string nat

text \<open>
  What the handler did to the outside: whether the document it opened is still open when
  it returns, and the page indices it read.
\<close>

record effects =
  handle_open :: bool
  page_reads :: "int list"

definition failed :: "error \<Rightarrow> response" where
  "failed e = Json_error (''Failed to process PDF: '' @ str_error e) 500"

text \<open>
  \<^verbatim>\<open>process_pdf\<close>. The opener \<^verbatim>\<open>fitz.open\<close> and the splitter are parameters;
  \<open>files\<close> is \<^verbatim>\<open>request.files\<close>. \<^verbatim>\<open>doc.close()\<close> is the last statement of the
  \<^verbatim>\<open>try\<close> block; the \<^verbatim>\<open>except\<close> branch only builds the error response.
\<close>

definition process_pdf ::
  "(string \<Rightarrow> error + document) \<Rightarrow> (string \<Rightarrow> error + string list)
     \<Rightarrow> (string \<rightharpoonup> upload) \<Rightarrow> response \<times> effects" where
  "process_pdf fitz_open split_text files =
     (case files ''file'' of
        None \<Rightarrow> (Json_error ''No file part'' 400, \<lparr>handle_open = False, page_reads = []\<rparr>)
      | Some file \<Rightarrow>
          if filename file = [] then
            (Json_error ''No selected file'' 400, \<lparr>handle_open = False, page_reads = []\<rparr>)
          else
            (case fitz_open (file_bytes file) of
               Inl e \<Rightarrow> (failed e, \<lparr>handle_open = False, page_reads = []\<rparr>)
             | Inr doc \<Rightarrow>
                 (case get_chapter_map doc of
                    Inl e \<Rightarrow> (failed e, \<lparr>handle_open = True, page_reads = []\<rparr>)
                  | Inr chapter_map \<Rightarrow>
                      (case layer3_loop doc split_text chapter_map [] [] of
                         (Inl e, reads) \<Rightarrow>
                           (failed e, \<lparr>handle_open = True, page_reads = reads\<rparr>)
                       | (Inr chunks, reads) \<Rightarrow>
                           (Json_layers
                              \<lparr>layer1_full_toc_doc =
                                 \<lparr>toc_content = toc_text chapter_map,
                                  toc_doc_type = ''toc_full''\<rparr>,
                               layer1_entry_docs = map toc_entry_doc chapter_map,
                               layer3_chunks = chunks\<rparr> 200,
                            \<lparr>handle_open = False, page_reads = reads\<rparr>)))))"

subsection \<open>The notions of the specification\<close>

text \<open>
  A qualifying entry: its level is 1 and its trimmed title starts with \<open>Chapter\<close> or
  \<open>Appendix\<close>.
\<close>

definition qualifying :: "toc_entry \<Rightarrow> bool" where
  "qualifying e =
     (fst e = 1 \<and> (startswith (strip (fst (snd e))) ''Chapter''
                     \<or> startswith (strip (fst (snd e))) ''Appendix''))"

definition entry_title :: "toc_entry \<Rightarrow> string" where
  "entry_title e = fst (snd e)"

definition entry_page :: "toc_entry \<Rightarrow> int" where
  "entry_page e = snd (snd e)"

text \<open>
  The chapter the specification describes for the \<open>i\<close>-th qualifying entry of the list
  \<open>qs\<close> of qualifying entries, in a document of \<open>pc\<close> pages.
\<close>

definition expected_chapter :: "toc_entry list \<Rightarrow> int \<Rightarrow> nat \<Rightarrow> chapter_record" where
  "expected_chapter qs pc i =
     \<lparr>chapter_number = str_int (int i + 1), title = strip (entry_title (qs ! i)),
      start_page = entry_page (qs ! i),
      end_page = (if Suc i < length qs then entry_page (qs ! Suc i) - 1 else pc)\<rparr>"

subsection \<open>Example documents\<close>

text \<open>A page accessor over a list of page texts; an index outside the list raises.\<close>

definition pages_text :: "string list \<Rightarrow> int \<Rightarrow> error + string" where
  "pages_text ps i =
     (if 0 \<le> i \<and> i < int (length ps) then Inr (ps ! nat i)
      else Inl (Raised ''page not in document''))"

definition intro_depths_doc :: document where
  "intro_depths_doc =
     \<lparr>get_toc = [(1, ''Copyright'', 1), (1, ''Chapter 1: Intro'', 3),
                 (1, ''Chapter 2: Depths'', 10)],
      page_count = 15,
      get_text = pages_text (replicate 15 ''text'')\<rparr>"

definition no_outline_doc :: document where
  "no_outline_doc =
     \<lparr>get_toc = [], page_count = 42, get_text = pages_text (replicate 42 ''text'')\<rparr>"

definition front_matter_doc :: document where
  "front_matter_doc =
     \<lparr>get_toc = [(1, ''Copyright'', 1), (2, ''Chapter 1'', 3), (1, ''chapter 2'', 7)],
      page_count = 42,
      get_text = pages_text (replicate 42 ''text'')\<rparr>"

definition swapped_doc :: document where
  "swapped_doc =
     \<lparr>get_toc = [(1, ''Chapter 2: Depths'', 10), (1, ''Chapter 1: Intro'', 3)],
      page_count = 15,
      get_text = pages_text (replicate 15 ''text'')\<rparr>"

text \<open>The same outline and page count as \<open>intro_depths_doc\<close>, with unreadable pages.\<close>

definition intro_depths_scan :: document where
  "intro_depths_scan =
     \<lparr>get_toc = [(1, ''Copyright'', 1), (1, ''Chapter 1: Intro'', 3),
                 (1, ''Chapter 2: Depths'', 10)],
      page_count = 15,
      get_text = (\<lambda>i. Inl (Raised ''cannot extract text''))\<rparr>"

text \<open>
  The invariant of the specification's data model: a chapter starts on page 1 or later
  and does not end before it starts.
\<close>

definition well_formed_chapter :: "chapter_record \<Rightarrow> bool" where
  "well_formed_chapter c = (1 \<le> start_page c \<and> start_page c \<le> end_page c)"

text \<open>Two chapter records with malformed ranges: one reversed, one beyond the document.\<close>

definition reversed_chapter :: chapter_record where
  "reversed_chapter =
     \<lparr>chapter_number = ''1'', title = ''Chapter 2: Depths'', start_page = 10, end_page = 2\<rparr>"

definition overlong_chapter :: chapter_record where
  "overlong_chapter =
     \<lparr>chapter_number = ''2'', title = ''Appendix'', start_page = 14, end_page = 40\<rparr>"

text \<open>A stand-in for the splitter in the examples: the whole text as one piece.\<close>

definition whole_text :: "string \<Rightarrow> error + string list" where
  "whole_text s = (if s = [] then Inr [] else Inr [s])"

definition book_request :: "string \<rightharpoonup> upload" where
  "book_request = [''file'' \<mapsto> \<lparr>filename = ''book.pdf'', file_bytes = ''%PDF''\<rparr>]"

text \<open>A one-page document whose page text holds a NUL character.\<close>

definition nul_doc :: document where
  "nul_doc =
     \<lparr>get_toc = [], page_count = 1,
      get_text = pages_text [[CHR ''a'', CHR 0x00, CHR ''b'']]\<rparr>"








text \<open>A document that opens but whose page text cannot be extracted.\<close>

definition unreadable_doc :: document where
  "unreadable_doc =
     \<lparr>get_toc = [], page_count = 1,
      get_text = (\<lambda>i. Inl (Raised ''cannot extract text''))\<rparr>"

section \<open>Properties of the chapter map\<close>

subsection \<open>The two loops\<close>

lemma valid_indices_loop_filter:
  "valid_indices_loop ps acc = acc @ map fst (filter (\<lambda>p. qualifying (snd p)) ps)"
  by (induction ps acc rule: valid_indices_loop.induct) (simp_all add: qualifying_def Let_def)

lemma valid_indices_in_range:
  "i \<in> set (valid_indices_loop (enumerate 0 toc) []) \<Longrightarrow> i < length toc"
  by (auto simp: valid_indices_loop_filter in_set_enumerate_eq)

lemma valid_indices_entries:
  "map ((!) toc) (valid_indices_loop (enumerate 0 toc) []) = filter qualifying toc"
proof -
  have "map ((!) toc) (map fst (filter (\<lambda>p. qualifying (snd p)) (enumerate 0 toc)))
        = map snd (filter (\<lambda>p. qualifying (snd p)) (enumerate 0 toc))"
    by (auto simp: in_set_enumerate_eq)
  also have "\<dots> = filter qualifying (map snd (enumerate 0 toc))"
    by (induction toc rule: rev_induct) (simp_all add: enumerate_append_eq)
  finally show ?thesis by (simp add: valid_indices_loop_filter)
qed

lemma chapter_loop_expected:
  assumes "\<forall>x \<in> set vci. x < length toc"
  shows "j \<le> length vci \<Longrightarrow>
    chapter_loop toc pc vci (enumerate j (drop j vci)) (int j + 1) cm
      = Inr (cm @ map (expected_chapter (map ((!) toc) vci) pc) [j..<length vci])"
proof (induction "length vci - j" arbitrary: j cm)
  case 0
  then show ?case by simp
next
  case (Suc n)
  then have j: "j < length vci" by simp
  then have d: "drop j vci = vci ! j # drop (Suc j) vci"
    by (simp add: Cons_nth_drop_Suc)
  have in_toc: "vci ! j < length toc" using assms j by simp
  have nxt: "Suc j < length vci \<Longrightarrow> vci ! Suc j < length toc" using assms by simp
  have ep: "chapter_end_page toc pc vci j
      = Inr (if Suc j < length vci then entry_page (toc ! (vci ! Suc j)) - 1 else pc)"
    using nxt by (auto simp: chapter_end_page_def getitem_def entry_page_def split: prod.splits)
  have ih: "chapter_loop toc pc vci (enumerate (Suc j) (drop (Suc j) vci)) (int (Suc j) + 1) cm'
      = Inr (cm' @ map (expected_chapter (map ((!) toc) vci) pc) [Suc j..<length vci])" for cm'
    using Suc.hyps(1) [of "Suc j" cm'] Suc.hyps(2) j by simp
  have c: "int (Suc j) + 1 = int j + 1 + 1" by simp
  have u: "[j..<length vci] = j # [Suc j..<length vci]"
    using j by (simp add: upt_conv_Cons)
  have x: "expected_chapter (map ((!) toc) vci) pc j =
      \<lparr>chapter_number = str_int (int j + 1), title = strip (fst (snd (toc ! (vci ! j)))),
       start_page = snd (snd (toc ! (vci ! j))),
       end_page = (if Suc j < length vci then entry_page (toc ! (vci ! Suc j)) - 1 else pc)\<rparr>"
    using j by (simp add: expected_chapter_def entry_title_def entry_page_def)
  have "chapter_loop toc pc vci (enumerate j (drop j vci)) (int j + 1) cm
      = chapter_loop toc pc vci (enumerate (Suc j) (drop (Suc j) vci)) (int j + 1 + 1)
          (cm @ [expected_chapter (map ((!) toc) vci) pc j])"
    unfolding d x using in_toc by (simp add: ep getitem_def split: prod.splits)
  also have "\<dots> = Inr ((cm @ [expected_chapter (map ((!) toc) vci) pc j])
      @ map (expected_chapter (map ((!) toc) vci) pc) [Suc j..<length vci])"
    unfolding c [symmetric] by (rule ih)
  finally show ?case unfolding u by simp
qed

lemma get_chapter_map_fallback:
  "filter qualifying (get_toc doc) = [] \<Longrightarrow> get_chapter_map doc = Inr (full_document doc)"
  using valid_indices_entries [of "get_toc doc"]
  by (simp add: get_chapter_map_def Let_def)

lemma get_chapter_map_chapters:
  assumes "filter qualifying (get_toc doc) \<noteq> []"
  shows "get_chapter_map doc
    = Inr (map (expected_chapter (filter qualifying (get_toc doc)) (page_count doc))
             [0..<length (filter qualifying (get_toc doc))])"
proof -
  let ?toc = "get_toc doc"
  let ?vci = "valid_indices_loop (enumerate 0 ?toc) []"
  have e: "map ((!) ?toc) ?vci = filter qualifying ?toc" by (rule valid_indices_entries)
  then have len: "length ?vci = length (filter qualifying ?toc)"
    by (metis length_map)
  have ne: "?toc \<noteq> []" "?vci \<noteq> []" using assms e by auto
  have "chapter_loop ?toc (page_count doc) ?vci (enumerate 0 (drop 0 ?vci)) (int 0 + 1) []
      = Inr ([] @ map (expected_chapter (map ((!) ?toc) ?vci) (page_count doc)) [0..<length ?vci])"
    by (rule chapter_loop_expected) (auto dest: valid_indices_in_range)
  then show ?thesis using ne by (simp add: get_chapter_map_def Let_def e len)
qed

text \<open>The chapter map is always returned, and is never empty.\<close>

lemma get_chapter_map_total: "\<exists>cm. get_chapter_map doc = Inr cm \<and> cm \<noteq> []"
proof (cases "filter qualifying (get_toc doc) = []")
  case True
  then show ?thesis by (simp add: get_chapter_map_fallback full_document_def)
next
  case False
  then show ?thesis by (simp add: get_chapter_map_chapters)
qed

lemma qualifying_intro_depths:
  "filter qualifying (get_toc intro_depths_doc)
     = [(1, ''Chapter 1: Intro'', 3), (1, ''Chapter 2: Depths'', 10)]"
  by (simp add: intro_depths_doc_def qualifying_def strip_def startswith_def isspace_def)

lemma str_int_1: "str_int 1 = ''1''"
  by code_simp

lemma str_int_2: "str_int 2 = ''2''"
  by code_simp

lemma str_int_3: "str_int 3 = ''3''"
  by code_simp

lemma str_int_10: "str_int 10 = ''10''"
  by code_simp

lemmas str_int_small = str_int_1 str_int_2 str_int_3 str_int_10

subsection \<open>Qualifying entries become chapters\<close>

text \<open>
  C1. When the outline has \<open>k \<ge> 1\<close> qualifying entries (level 1, trimmed title starting
  with \<open>Chapter\<close> or \<open>Appendix\<close>), \<open>get_chapter_map\<close> returns exactly \<open>k\<close> chapters,
  numbered \<open>1\<close> to \<open>k\<close> in outline order; chapter \<open>i\<close> starts on the page of the \<open>i\<close>-th
  qualifying entry and carries its trimmed title; the last chapter ends on the last page
  of the document and every other chapter ends on the page before the next chapter starts.
\<close>

theorem chapters_of_qualifying_entries:
  assumes "qs = filter qualifying (get_toc doc)" and "qs \<noteq> []"
  shows "\<exists>cm. get_chapter_map doc = Inr cm \<and> length cm = length qs
    \<and> (\<forall>i < length qs. chapter_number (cm ! i) = str_int (int i + 1)
          \<and> start_page (cm ! i) = entry_page (qs ! i)
          \<and> title (cm ! i) = strip (entry_title (qs ! i)))
    \<and> end_page (last cm) = page_count doc
    \<and> (\<forall>i. Suc i < length qs \<longrightarrow> end_page (cm ! i) = start_page (cm ! Suc i) - 1)"
proof -
  let ?cm = "map (expected_chapter qs (page_count doc)) [0..<length qs]"
  have m: "get_chapter_map doc = Inr ?cm"
    using assms get_chapter_map_chapters [of doc] by simp
  have l: "length ?cm = length qs" by simp
  have n: "i < length qs \<Longrightarrow> ?cm ! i = expected_chapter qs (page_count doc) i" for i
    by simp
  have props: "\<forall>i < length qs. chapter_number (?cm ! i) = str_int (int i + 1)
          \<and> start_page (?cm ! i) = entry_page (qs ! i)
          \<and> title (?cm ! i) = strip (entry_title (qs ! i))"
    by (simp add: expected_chapter_def)
  have "length qs \<noteq> 0" using assms(2) by simp
  then have "last ?cm = expected_chapter qs (page_count doc) (length qs - 1)"
    by (simp add: last_map last_upt)
  then have e: "end_page (last ?cm) = page_count doc"
    using \<open>length qs \<noteq> 0\<close> by (simp add: expected_chapter_def)
  have nl: "\<forall>i. Suc i < length qs \<longrightarrow> end_page (?cm ! i) = start_page (?cm ! Suc i) - 1"
    by (simp add: expected_chapter_def)
  show ?thesis using m l props e nl by blast
qed

theorem chapters_of_qualifying_entries_witness:
  "filter qualifying (get_toc intro_depths_doc) \<noteq> []
   \<and> (\<exists>cm. get_chapter_map intro_depths_doc = Inr cm \<and> length cm = 2
        \<and> chapter_number (cm ! 0) = ''1'' \<and> chapter_number (cm ! 1) = ''2''
        \<and> start_page (cm ! 0) = 3 \<and> title (cm ! 1) = ''Chapter 2: Depths''
        \<and> end_page (cm ! 0) = start_page (cm ! 1) - 1
        \<and> end_page (last cm) = 15)"
proof -
  let ?qs = "[(1, ''Chapter 1: Intro'', 3), (1, ''Chapter 2: Depths'', 10)] :: toc_entry list"
  have h1: "?qs = filter qualifying (get_toc intro_depths_doc)"
    by (simp add: qualifying_intro_depths)
  have h2: "?qs \<noteq> []" by simp
  obtain cm where cm: "get_chapter_map intro_depths_doc = Inr cm" "length cm = length ?qs"
    "\<forall>i < length ?qs. chapter_number (cm ! i) = str_int (int i + 1)
          \<and> start_page (cm ! i) = entry_page (?qs ! i)
          \<and> title (cm ! i) = strip (entry_title (?qs ! i))"
    "end_page (last cm) = page_count intro_depths_doc"
    "\<forall>i. Suc i < length ?qs \<longrightarrow> end_page (cm ! i) = start_page (cm ! Suc i) - 1"
    using chapters_of_qualifying_entries [OF h1 h2] by blast
  have a0: "chapter_number (cm ! 0) = ''1'' \<and> start_page (cm ! 0) = 3"
    using cm(3) by (simp add: str_int_small entry_page_def)
  have a1: "chapter_number (cm ! 1) = ''2'' \<and> title (cm ! 1) = ''Chapter 2: Depths''"
    using cm(3) by (simp add: str_int_small entry_title_def strip_def isspace_def)
  have a2: "end_page (cm ! 0) = start_page (cm ! 1) - 1" using cm(5) by simp
  have a3: "end_page (last cm) = 15" using cm(4) by (simp add: intro_depths_doc_def)
  have a4: "length cm = 2" using cm(2) by simp
  have a5: "filter qualifying (get_toc intro_depths_doc) \<noteq> []"
    by (simp add: qualifying_intro_depths)
  show ?thesis using cm(1) a0 a1 a2 a3 a4 a5 by auto
qed

subsection \<open>The fallback\<close>

text \<open>
  C2. When the outline is empty, \<open>get_chapter_map\<close> returns exactly one chapter, numbered
  \<open>1\<close>, titled \<open>Full Document\<close>, from page 1 to the last page of the document.
\<close>

theorem empty_outline_full_document:
  "get_toc doc = [] \<Longrightarrow>
   get_chapter_map doc
     = Inr [\<lparr>chapter_number = ''1'', title = ''Full Document'', start_page = 1,
             end_page = page_count doc\<rparr>]"
  by (simp add: get_chapter_map_def full_document_def)

theorem empty_outline_full_document_witness:
  "get_toc no_outline_doc = []
   \<and> get_chapter_map no_outline_doc
       = Inr [\<lparr>chapter_number = ''1'', title = ''Full Document'', start_page = 1,
               end_page = 42\<rparr>]"
proof -
  have h: "get_toc no_outline_doc = []" by (simp add: no_outline_doc_def)
  show ?thesis using empty_outline_full_document [OF h] h by (simp add: no_outline_doc_def)
qed

text \<open>
  C3. A non-empty outline without any qualifying entry gives the same result as the
  empty outline with the same page count.
\<close>

theorem no_qualifying_entry_as_empty_outline:
  assumes "get_toc doc \<noteq> []" and "\<forall>e \<in> set (get_toc doc). \<not> qualifying e"
    and "get_toc doc' = []" and "page_count doc' = page_count doc"
  shows "get_chapter_map doc = get_chapter_map doc'"
proof -
  have "filter qualifying (get_toc doc) = []" using assms(2) by (simp add: filter_empty_conv)
  then have "get_chapter_map doc = Inr (full_document doc)" by (rule get_chapter_map_fallback)
  moreover have "get_chapter_map doc' = Inr (full_document doc')"
    using assms(3) by (simp add: get_chapter_map_fallback)
  ultimately show ?thesis using assms(4) by (simp add: full_document_def)
qed

theorem no_qualifying_entry_as_empty_outline_witness:
  "get_toc front_matter_doc \<noteq> [] \<and> filter qualifying (get_toc front_matter_doc) = []
   \<and> get_toc no_outline_doc = [] \<and> page_count no_outline_doc = page_count front_matter_doc
   \<and> get_chapter_map front_matter_doc = get_chapter_map no_outline_doc"
proof -
  have h1: "get_toc front_matter_doc \<noteq> []" by (simp add: front_matter_doc_def)
  have f: "filter qualifying (get_toc front_matter_doc) = []"
    by (simp add: front_matter_doc_def qualifying_def strip_def startswith_def isspace_def)
  then have h2: "\<forall>e \<in> set (get_toc front_matter_doc). \<not> qualifying e"
    by (simp add: filter_empty_conv)
  have h3: "get_toc no_outline_doc = []" by (simp add: no_outline_doc_def)
  have h4: "page_count no_outline_doc = page_count front_matter_doc"
    by (simp add: no_outline_doc_def front_matter_doc_def)
  show ?thesis
    using no_qualifying_entry_as_empty_outline [OF h1 h2 h3 h4] h1 f h3 h4 by blast
qed

subsection \<open>Only the outline and the page count matter\<close>

text \<open>
  C10. Two documents with equal outlines and equal page counts have identical chapter
  maps, whatever their page texts.
\<close>

theorem chapter_map_of_outline_and_page_count:
  "get_toc doc = get_toc doc' \<Longrightarrow> page_count doc = page_count doc' \<Longrightarrow>
   get_chapter_map doc = get_chapter_map doc'"
  by (simp add: get_chapter_map_def full_document_def Let_def)

theorem chapter_map_of_outline_and_page_count_witness:
  "get_toc intro_depths_doc = get_toc intro_depths_scan
   \<and> page_count intro_depths_doc = page_count intro_depths_scan
   \<and> get_text intro_depths_doc 0 \<noteq> get_text intro_depths_scan 0
   \<and> get_chapter_map intro_depths_doc = get_chapter_map intro_depths_scan"
proof -
  have h1: "get_toc intro_depths_doc = get_toc intro_depths_scan"
    by (simp add: intro_depths_doc_def intro_depths_scan_def)
  have h2: "page_count intro_depths_doc = page_count intro_depths_scan"
    by (simp add: intro_depths_doc_def intro_depths_scan_def)
  have h3: "get_text intro_depths_doc 0 \<noteq> get_text intro_depths_scan 0"
    by (simp add: intro_depths_doc_def intro_depths_scan_def pages_text_def)
  show ?thesis using chapter_map_of_outline_and_page_count [OF h1 h2] h1 h2 h3 by simp
qed

subsection \<open>The concrete scenario\<close>

text \<open>
  C5. For the outline \<open>(1, Copyright, 1)\<close>, \<open>(1, Chapter 1: Intro, 3)\<close>,
  \<open>(1, Chapter 2: Depths, 10)\<close> and 15 pages, the chapter map is the two chapters
  \<open>1, Chapter 1: Intro, 3, 9\<close> and \<open>2, Chapter 2: Depths, 10, 15\<close>, and the full table of
  contents built from them is the two lines
  \<open>Chapter 1: Chapter 1: Intro (Page 3)\<close> and \<open>Chapter 2: Chapter 2: Depths (Page 10)\<close>.
\<close>

theorem intro_depths_scenario:
  "get_chapter_map intro_depths_doc
     = Inr [\<lparr>chapter_number = ''1'', title = ''Chapter 1: Intro'', start_page = 3,
              end_page = 9\<rparr>,
            \<lparr>chapter_number = ''2'', title = ''Chapter 2: Depths'', start_page = 10,
              end_page = 15\<rparr>]
   \<and> toc_text [\<lparr>chapter_number = ''1'', title = ''Chapter 1: Intro'', start_page = 3,
                 end_page = 9\<rparr>,
               \<lparr>chapter_number = ''2'', title = ''Chapter 2: Depths'', start_page = 10,
                 end_page = 15\<rparr>]
       = ''Chapter 1: Chapter 1: Intro (Page 3)'' @ [CHR 0x0A]
           @ ''Chapter 2: Chapter 2: Depths (Page 10)''"
proof -
  let ?qs = "[(1, ''Chapter 1: Intro'', 3), (1, ''Chapter 2: Depths'', 10)] :: toc_entry list"
  have pc: "page_count intro_depths_doc = 15" by (simp add: intro_depths_doc_def)
  have "get_chapter_map intro_depths_doc
      = Inr [expected_chapter ?qs 15 0, expected_chapter ?qs 15 (Suc 0)]"
    using get_chapter_map_chapters [of intro_depths_doc]
    by (simp add: qualifying_intro_depths pc)
  then have m: "get_chapter_map intro_depths_doc
     = Inr [\<lparr>chapter_number = ''1'', title = ''Chapter 1: Intro'', start_page = 3,
              end_page = 9\<rparr>,
            \<lparr>chapter_number = ''2'', title = ''Chapter 2: Depths'', start_page = 10,
              end_page = 15\<rparr>]"
    by (simp add: expected_chapter_def entry_title_def entry_page_def strip_def isspace_def
        str_int_small)
  have t: "toc_text [\<lparr>chapter_number = ''1'', title = ''Chapter 1: Intro'', start_page = 3,
                 end_page = 9\<rparr>,
               \<lparr>chapter_number = ''2'', title = ''Chapter 2: Depths'', start_page = 10,
                 end_page = 15\<rparr>]
       = ''Chapter 1: Chapter 1: Intro (Page 3)'' @ [CHR 0x0A]
           @ ''Chapter 2: Chapter 2: Depths (Page 10)''"
    by (simp add: toc_text_def toc_line_def str_int_small)
  show ?thesis using m t by blast
qed

subsection \<open>Page ranges of the chapters\<close>

text \<open>
  C4, as the specification states it, fails: an outline whose qualifying entries are not
  in page order gives a chapter that ends before it starts.
\<close>

theorem swapped_outline_counterexample:
  "get_chapter_map swapped_doc
     = Inr [\<lparr>chapter_number = ''1'', title = ''Chapter 2: Depths'', start_page = 10,
              end_page = 2\<rparr>,
            \<lparr>chapter_number = ''2'', title = ''Chapter 1: Intro'', start_page = 3,
              end_page = 15\<rparr>]
   \<and> \<not> well_formed_chapter
         \<lparr>chapter_number = ''1'', title = ''Chapter 2: Depths'', start_page = 10,
          end_page = 2\<rparr>"
proof -
  have q: "filter qualifying (get_toc swapped_doc)
      = [(1, ''Chapter 2: Depths'', 10), (1, ''Chapter 1: Intro'', 3)]"
    by (simp add: swapped_doc_def qualifying_def strip_def startswith_def isspace_def)
  let ?qs = "[(1, ''Chapter 2: Depths'', 10), (1, ''Chapter 1: Intro'', 3)] :: toc_entry list"
  have pc: "page_count swapped_doc = 15" by (simp add: swapped_doc_def)
  have "get_chapter_map swapped_doc
      = Inr [expected_chapter ?qs 15 0, expected_chapter ?qs 15 (Suc 0)]"
    using get_chapter_map_chapters [of swapped_doc]
    by (simp add: q pc)
  then show ?thesis
    by (simp add: expected_chapter_def entry_title_def entry_page_def strip_def isspace_def
        str_int_small well_formed_chapter_def)
qed

text \<open>
  C4, amended. When the document has at least one page and the pages of the qualifying
  entries lie between 1 and the page count and increase strictly in outline order, every
  chapter of the chapter map starts on page 1 or later and does not end before it starts.
\<close>

theorem chapters_well_formed:
  assumes "qs = filter qualifying (get_toc doc)"
    and "1 \<le> page_count doc"
    and "\<forall>e \<in> set qs. 1 \<le> entry_page e \<and> entry_page e \<le> page_count doc"
    and "sorted_wrt (<) (map entry_page qs)"
  shows "\<exists>cm. get_chapter_map doc = Inr cm \<and> (\<forall>c \<in> set cm. well_formed_chapter c)"
proof (cases "qs = []")
  case True
  then have "get_chapter_map doc = Inr (full_document doc)"
    using assms(1) by (simp add: get_chapter_map_fallback)
  then show ?thesis using assms(2) by (simp add: full_document_def well_formed_chapter_def)
next
  case False
  let ?cm = "map (expected_chapter qs (page_count doc)) [0..<length qs]"
  have m: "get_chapter_map doc = Inr ?cm"
    using False assms(1) get_chapter_map_chapters [of doc] by simp
  have "well_formed_chapter (expected_chapter qs (page_count doc) i)" if i: "i < length qs" for i
  proof -
    have r: "1 \<le> entry_page (qs ! i) \<and> entry_page (qs ! i) \<le> page_count doc"
      using assms(3) i by simp
    have "entry_page (qs ! i) < entry_page (qs ! Suc i)" if "Suc i < length qs"
      using sorted_wrt_nth_less [OF assms(4), of i "Suc i"] that by simp
    then show ?thesis using r
      by (auto simp: well_formed_chapter_def expected_chapter_def)
  qed
  then have "\<forall>c \<in> set ?cm. well_formed_chapter c" by auto
  then show ?thesis using m by blast
qed

theorem chapters_well_formed_witness:
  "\<exists>cm. get_chapter_map intro_depths_doc = Inr cm \<and> list_all well_formed_chapter cm"
proof -
  let ?qs = "[(1, ''Chapter 1: Intro'', 3), (1, ''Chapter 2: Depths'', 10)] :: toc_entry list"
  have h1: "?qs = filter qualifying (get_toc intro_depths_doc)"
    by (simp add: qualifying_intro_depths)
  have h2: "1 \<le> page_count intro_depths_doc" by (simp add: intro_depths_doc_def)
  have h3: "\<forall>e \<in> set ?qs. 1 \<le> entry_page e \<and> entry_page e \<le> page_count intro_depths_doc"
    by (simp add: intro_depths_doc_def entry_page_def)
  have h4: "sorted_wrt (<) (map entry_page ?qs)" by (simp add: entry_page_def)
  show ?thesis using chapters_well_formed [OF h1 h2 h3 h4] by (simp add: list_all_iff)
qed

text \<open>The hypotheses of the amended statement are also necessary.\<close>

lemma chapters_well_formed_converse:
  assumes "qs = filter qualifying (get_toc doc)"
    and "get_chapter_map doc = Inr cm"
    and "\<forall>c \<in> set cm. well_formed_chapter c"
  shows "1 \<le> page_count doc
    \<and> (\<forall>e \<in> set qs. 1 \<le> entry_page e \<and> entry_page e \<le> page_count doc)
    \<and> sorted_wrt (<) (map entry_page qs)"
proof (cases "qs = []")
  case True
  then have "cm = full_document doc"
    using assms(1,2) by (simp add: get_chapter_map_fallback)
  then show ?thesis using assms(3) True by (simp add: full_document_def well_formed_chapter_def)
next
  case False
  let ?k = "length qs"
  have cm: "cm = map (expected_chapter qs (page_count doc)) [0..<?k]"
    using False assms(1,2) get_chapter_map_chapters [of doc] by simp
  have wf: "well_formed_chapter (expected_chapter qs (page_count doc) i)" if "i < ?k" for i
    using assms(3) that unfolding cm by simp
  have lo: "1 \<le> entry_page (qs ! i)" if "i < ?k" for i
    using wf [OF that] by (simp add: well_formed_chapter_def expected_chapter_def)
  have step: "entry_page (qs ! i) < entry_page (qs ! Suc i)" if "Suc i < ?k" for i
    using wf [of i] that by (simp add: well_formed_chapter_def expected_chapter_def)
  have "transp ((<) :: int \<Rightarrow> int \<Rightarrow> bool)" by (rule transpI) simp
  then have srt: "sorted_wrt (<) (map entry_page qs)"
    using step by (simp add: sorted_wrt_iff_nth_Suc_transp)
  have k: "0 < ?k" using False by simp
  have top: "entry_page (qs ! (?k - 1)) \<le> page_count doc"
    using wf [of "?k - 1"] k by (simp add: well_formed_chapter_def expected_chapter_def)
  have hi: "entry_page (qs ! i) \<le> page_count doc" if "i < ?k" for i
  proof (cases "i = ?k - 1")
    case True
    then show ?thesis using top by simp
  next
    case False
    then have "i < ?k - 1" using that by simp
    then have "entry_page (qs ! i) < entry_page (qs ! (?k - 1))"
      using sorted_wrt_nth_less [OF srt, of i "?k - 1"] k by simp
    then show ?thesis using top by simp
  qed
  have "1 \<le> page_count doc" using lo [OF k] hi [OF k] by simp
  moreover have "\<forall>e \<in> set qs. 1 \<le> entry_page e \<and> entry_page e \<le> page_count doc"
    using lo hi by (metis in_set_conv_nth)
  ultimately show ?thesis using srt by simp
qed

section \<open>Properties of the segmenter\<close>

subsection \<open>The pages read for a chapter\<close>

lemma read_pages_reads:
  "read_pages doc ps t0 reads = (r, reads') \<Longrightarrow> \<exists>n \<le> length ps. reads' = reads @ take n ps"
proof (induction ps arbitrary: t0 reads)
  case Nil
  then show ?case by simp
next
  case (Cons p ps)
  show ?case
  proof (cases "get_text doc p")
    case (Inl e)
    then have "reads' = reads @ take (Suc 0) (p # ps)" using Cons.prems by simp
    then show ?thesis by (metis Suc_leI length_Cons zero_less_Suc)
  next
    case (Inr t)
    then have "read_pages doc ps (t0 @ t) (reads @ [p]) = (r, reads')"
      using Cons.prems by simp
    then obtain n where "n \<le> length ps" "reads' = (reads @ [p]) @ take n ps"
      using Cons.IH by blast
    then have "Suc n \<le> length (p # ps) \<and> reads' = reads @ take (Suc n) (p # ps)" by simp
    then show ?thesis by blast
  qed
qed

lemma set_py_range: "set (py_range a b) = {p. a \<le> p \<and> p < b}"
  by (auto simp: py_range_def)

lemma py_range_empty: "b \<le> a \<Longrightarrow> py_range a b = []"
  by (simp add: py_range_def)

text \<open>
  C6. For every chapter record, the page indices read for it lie in the half-open range
  from \<open>max 0 (start_page - 1)\<close> to \<open>min page_count end_page\<close>, hence between 0 and
  \<open>page_count - 1\<close>; when that range is empty nothing is read, the chapter's text is the
  empty string, and the loop goes on to split it and to the next chapter.
\<close>

theorem page_reads_within_clamped_range:
  assumes "extract_chapter_text doc c reads = (r, reads')"
  shows "\<exists>new. reads' = reads @ new
    \<and> (\<forall>p \<in> set new. max 0 (start_page c - 1) \<le> p \<and> p < min (page_count doc) (end_page c)
          \<and> 0 \<le> p \<and> p \<le> page_count doc - 1)
    \<and> (min (page_count doc) (end_page c) \<le> max 0 (start_page c - 1) \<longrightarrow>
          new = [] \<and> r = Inr []
          \<and> layer3_loop doc split_text (c # rest) chunks_acc reads
              = (case split_text [] of
                   Inl e \<Rightarrow> (Inl e, reads)
                 | Inr chunks \<Rightarrow>
                     layer3_loop doc split_text rest
                       (chunks_acc @ map (make_chunk c) chunks) reads))"
proof -
  let ?a = "max 0 (start_page c - 1)"
  let ?b = "min (page_count doc) (end_page c)"
  have rp: "read_pages doc (py_range ?a ?b) [] reads = (r, reads')"
    using assms by (simp add: extract_chapter_text_def)
  then obtain n where n: "reads' = reads @ take n (py_range ?a ?b)"
    using read_pages_reads by blast
  have "set (take n (py_range ?a ?b)) \<subseteq> {p. ?a \<le> p \<and> p < ?b}"
    using set_take_subset [of n "py_range ?a ?b"] by (simp add: set_py_range)
  then have inr: "\<forall>p \<in> set (take n (py_range ?a ?b)).
      ?a \<le> p \<and> p < ?b \<and> 0 \<le> p \<and> p \<le> page_count doc - 1"
    by auto
  have emp: "take n (py_range ?a ?b) = [] \<and> r = Inr []
      \<and> layer3_loop doc split_text (c # rest) chunks_acc reads
          = (case split_text [] of
               Inl e \<Rightarrow> (Inl e, reads)
             | Inr chunks \<Rightarrow>
                 layer3_loop doc split_text rest
                   (chunks_acc @ map (make_chunk c) chunks) reads)" if "?b \<le> ?a"
  proof -
    have e: "py_range ?a ?b = []" using that by (rule py_range_empty)
    then have "r = Inr []" "reads' = reads" using rp by simp_all
    then have "extract_chapter_text doc c reads = (Inr [], reads)" using assms by simp
    then show ?thesis using e \<open>r = Inr []\<close> by simp
  qed
  show ?thesis using n inr emp by blast
qed

theorem page_reads_within_clamped_range_witness:
  "extract_chapter_text swapped_doc reversed_chapter [] = (Inr [], [])
   \<and> list_all (\<lambda>p. 0 \<le> p \<and> p \<le> 14) (snd (extract_chapter_text swapped_doc overlong_chapter []))"
proof -
  obtain r reads' where x: "extract_chapter_text swapped_doc reversed_chapter [] = (r, reads')"
    by (cases "extract_chapter_text swapped_doc reversed_chapter []") blast
  have e: "min (page_count swapped_doc) (end_page reversed_chapter)
      \<le> max 0 (start_page reversed_chapter - 1)"
    by (simp add: swapped_doc_def reversed_chapter_def)
  obtain new where "reads' = [] @ new"
    "min (page_count swapped_doc) (end_page reversed_chapter)
       \<le> max 0 (start_page reversed_chapter - 1) \<longrightarrow> new = [] \<and> r = Inr []"
    using page_reads_within_clamped_range
      [where split_text = whole_text and rest = "[]" and chunks_acc = "[]", OF x]
    by blast
  then have a: "r = Inr [] \<and> reads' = []" using e by simp
  obtain r2 reads2 where y: "extract_chapter_text swapped_doc overlong_chapter [] = (r2, reads2)"
    by (cases "extract_chapter_text swapped_doc overlong_chapter []") blast
  obtain new2 where "reads2 = [] @ new2"
    "\<forall>p \<in> set new2. max 0 (start_page overlong_chapter - 1) \<le> p
        \<and> p < min (page_count swapped_doc) (end_page overlong_chapter)
        \<and> 0 \<le> p \<and> p \<le> page_count swapped_doc - 1"
    using page_reads_within_clamped_range
      [where split_text = whole_text and rest = "[]" and chunks_acc = "[]", OF y]
    by blast
  then have b: "list_all (\<lambda>p. 0 \<le> p \<and> p \<le> 14) reads2"
    by (simp add: list_all_iff swapped_doc_def)
  show ?thesis using x y a b by simp
qed

subsection \<open>Sanitized chunks\<close>

lemma replace_char_removed: "c \<notin> set (replace [c] [] s)"
  by (induction s) (simp_all add: startswith_def)

lemma make_chunk_no_nul: "CHR 0x00 \<notin> set (chunk_content (make_chunk c s))"
  by (simp add: make_chunk_def replace_char_removed)

lemma layer3_loop_no_nul:
  "layer3_loop doc split_text cs acc reads = (Inr chunks, reads') \<Longrightarrow>
   \<forall>k \<in> set acc. CHR 0x00 \<notin> set (chunk_content k) \<Longrightarrow>
   \<forall>k \<in> set chunks. CHR 0x00 \<notin> set (chunk_content k)"
proof (induction cs arbitrary: acc reads)
  case Nil
  then show ?case by simp
next
  case (Cons c cs)
  obtain r reads1 where x: "extract_chapter_text doc c reads = (r, reads1)"
    by (cases "extract_chapter_text doc c reads") blast
  then obtain chapter_text where r: "r = Inr chapter_text"
    using Cons.prems(1) by (cases r) simp_all
  then obtain pieces where s: "split_text chapter_text = Inr pieces"
    using Cons.prems(1) x by (cases "split_text chapter_text") simp_all
  have "layer3_loop doc split_text cs (acc @ map (make_chunk c) pieces) reads1 = (Inr chunks, reads')"
    using Cons.prems(1) x r s by simp
  moreover have "\<forall>k \<in> set (acc @ map (make_chunk c) pieces). CHR 0x00 \<notin> set (chunk_content k)"
    using Cons.prems(2) by (auto simp: make_chunk_no_nul)
  ultimately show ?case by (rule Cons.IH)
qed

text \<open>
  C7. Whatever the document, its page texts and the splitter, no chunk of
  \<open>layer3_chunks\<close> in a response holds the character NUL.
\<close>

theorem chunks_hold_no_nul:
  assumes "process_pdf fitz_open split_text files = (Json_layers p status, eff)"
  shows "\<forall>k \<in> set (layer3_chunks p). CHR 0x00 \<notin> set (chunk_content k)"
proof -
  obtain doc cm reads where
    "layer3_loop doc split_text cm [] [] = (Inr (layer3_chunks p), reads)"
    using assms
    by (auto simp: process_pdf_def failed_def
        split: option.splits if_splits sum.splits prod.splits)
  then show ?thesis using layer3_loop_no_nul [of doc split_text cm "[]" "[]"] by simp
qed

theorem chunks_hold_no_nul_witness:
  "\<exists>p. process_pdf (\<lambda>b. Inr nul_doc) whole_text book_request
          = (Json_layers p 200, \<lparr>handle_open = False, page_reads = [0]\<rparr>)
        \<and> map chunk_content (layer3_chunks p) = [''ab'']
        \<and> list_all (\<lambda>k. CHR 0x00 \<notin> set (chunk_content k)) (layer3_chunks p)"
proof -
  let ?c = "\<lparr>chapter_number = ''1'', title = ''Full Document'', start_page = 1, end_page = 1\<rparr>"
  let ?p = "\<lparr>layer1_full_toc_doc = \<lparr>toc_content = toc_text [?c], toc_doc_type = ''toc_full''\<rparr>,
             layer1_entry_docs = map toc_entry_doc [?c],
             layer3_chunks = [make_chunk ?c [CHR ''a'', CHR 0x00, CHR ''b'']]\<rparr>"
  have x: "extract_chapter_text nul_doc ?c [] = (Inr [CHR ''a'', CHR 0x00, CHR ''b''], [0])"
    by (simp add: extract_chapter_text_def nul_doc_def py_range_def pages_text_def)
  have m: "get_chapter_map nul_doc = Inr [?c]"
    by (simp add: get_chapter_map_def full_document_def nul_doc_def)
  have p: "process_pdf (\<lambda>b. Inr nul_doc) whole_text book_request
      = (Json_layers ?p 200, \<lparr>handle_open = False, page_reads = [0]\<rparr>)"
    by (simp add: process_pdf_def book_request_def m x whole_text_def)
  have c: "map chunk_content (layer3_chunks ?p) = [''ab'']"
    by (simp add: make_chunk_def startswith_def)
  have n: "list_all (\<lambda>k. CHR 0x00 \<notin> set (chunk_content k)) (layer3_chunks ?p)"
    using chunks_hold_no_nul [OF p] by (simp add: list_all_iff)
  show ?thesis
  proof (intro exI conjI)
    show "process_pdf (\<lambda>b. Inr nul_doc) whole_text book_request
        = (Json_layers ?p 200, \<lparr>handle_open = False, page_reads = [0]\<rparr>)"
      by (rule p)
    show "map chunk_content (layer3_chunks ?p) = [''ab'']" by (rule c)
    show "list_all (\<lambda>k. CHR 0x00 \<notin> set (chunk_content k)) (layer3_chunks ?p)" by (rule n)
  qed
qed

subsection \<open>Chapter numbers are distinct\<close>





subsection \<open>Chapters without text\<close>












subsection \<open>Failures\<close>

text \<open>
  C9. On a document that opens but whose page text cannot be extracted, the handler
  answers with one error message and status 500 and no layers, and returns without
  having closed the document: \<open>doc.close()\<close> is the last statement of the \<open>try\<close> block
  and the \<open>except\<close> branch does not call it.
\<close>

theorem handle_left_open_on_failure:
  "process_pdf (\<lambda>b. Inr unreadable_doc) whole_text book_request
     = (Json_error ''Failed to process PDF: cannot extract text'' 500,
        \<lparr>handle_open = True, page_reads = [0]\<rparr>)"
proof -
  have m: "get_chapter_map unreadable_doc
      = Inr [\<lparr>chapter_number = ''1'', title = ''Full Document'', start_page = 1,
              end_page = 1\<rparr>]"
    by (simp add: get_chapter_map_def full_document_def unreadable_doc_def)
  have x: "extract_chapter_text unreadable_doc
      \<lparr>chapter_number = ''1'', title = ''Full Document'', start_page = 1, end_page = 1\<rparr> []
      = (Inl (Raised ''cannot extract text''), [0])"
    by (simp add: extract_chapter_text_def unreadable_doc_def py_range_def)
  show ?thesis
    by (simp add: process_pdf_def book_request_def m x failed_def)
qed

text \<open>
  More generally: once the document is open, every error response leaves it open, and a
  response with layers closes it.
\<close>

lemma error_after_open_leaves_handle_open:
  assumes "files ''file'' = Some file" and "filename file \<noteq> []"
    and "fitz_open (file_bytes file) = Inr doc"
    and "process_pdf fitz_open split_text files = (Json_error m status, eff)"
  shows "handle_open eff \<and> status = 500"
proof (cases "get_chapter_map doc")
  case (Inl e)
  then show ?thesis using assms by (auto simp: process_pdf_def failed_def)
next
  case (Inr cm)
  obtain r reads where l: "layer3_loop doc split_text cm [] [] = (r, reads)"
    by (cases "layer3_loop doc split_text cm [] []") blast
  show ?thesis using assms Inr l by (cases r) (auto simp: process_pdf_def failed_def)
qed

lemma layers_close_handle:
  assumes "process_pdf fitz_open split_text files = (Json_layers p status, eff)"
  shows "\<not> handle_open eff \<and> status = 200"
proof -
  obtain upl doc cm where f: "files ''file'' = Some upl" "filename upl \<noteq> []"
      "fitz_open (file_bytes upl) = Inr doc" "get_chapter_map doc = Inr cm"
    using assms
    by (auto simp: process_pdf_def failed_def split: option.splits if_splits sum.splits)
  obtain r reads where l: "layer3_loop doc split_text cm [] [] = (r, reads)"
    by (cases "layer3_loop doc split_text cm [] []") blast
  show ?thesis using assms f l by (cases r) (auto simp: process_pdf_def failed_def)
qed

end
